theory Spec2Isabelle
  imports Main "HOL-Library.Word"
begin

section \<open>The type cache of the shader translator (compiler/translator/Cache.cpp)\<close>

text \<open>
  The development embeds \<^verbatim>\<open>TCache\<close>: the constructor of its key \<^verbatim>\<open>TypeKey\<close>, the
  scoped redirect \<^verbatim>\<open>TScopedAllocator\<close>, and the three static operations
  \<^verbatim>\<open>initialize\<close>, \<^verbatim>\<open>destroy\<close> and \<^verbatim>\<open>getType\<close>. The program state (the static pointer
  \<^verbatim>\<open>sCache\<close>, the heap objects, the ambient pool allocator) is passed explicitly as a
  record; every exit that is not a normal return is a value of type \<open>fault\<close>.
  Each operation holds \<^verbatim>\<open>sCacheMutex\<close> from its first statement to its return, so one
  call is one step of the sequential model below; the lock itself is not part of it.
\<close>

subsection \<open>Build parameters\<close>

datatype endian = LittleEndian | BigEndian

text \<open>
  What the translation unit takes from headers that are not part of the source at hand:
  the byte order of the target, whether \<^verbatim>\<open>ASSERT\<close> is compiled in (common/debug.h), and
  the last enumerators of \<^verbatim>\<open>TBasicType\<close>, \<^verbatim>\<open>TPrecision\<close> and \<^verbatim>\<open>TQualifier\<close>. They are
  parameters of the model.
\<close>

record build =
  byte_order :: endian
  asserts_enabled :: bool
  EbtLast :: nat
  EbpLast :: nat
  EvqLast :: nat

datatype fault =
    AssertionFailure      \<comment> \<open>\<^verbatim>\<open>ASSERT\<close> failed in a build with assertions\<close>
  | NullCacheDeref        \<comment> \<open>\<^verbatim>\<open>sCache->\<close> with \<^verbatim>\<open>sCache == nullptr\<close>\<close>
  | DanglingCacheDeref    \<comment> \<open>\<^verbatim>\<open>sCache->\<close> with \<^verbatim>\<open>sCache\<close> pointing to a deleted instance\<close>
  | NullAllocatorDeref    \<comment> \<open>pool allocation with no ambient allocator\<close>
  | DanglingAllocator     \<comment> \<open>pool allocation from an allocator that was destroyed\<close>
  | BadAlloc              \<comment> \<open>the allocation itself failed\<close>

subsection \<open>TCache::TypeKey\<close>

type_synonym byte = "8 word"

text \<open>The enumerations are passed by their numeric value.\<close>

type_synonym TBasicType = int
type_synonym TPrecision = int
type_synonym TQualifier = int

text \<open>
  Modelled from the spec: the union \<^verbatim>\<open>TypeKey\<close> is declared in Cache.h. It overlays the
  integer \<^verbatim>\<open>value\<close> with the record \<^verbatim>\<open>components\<close> of five one-byte fields, in the order
  in which the constructor assigns them; \<^verbatim>\<open>EnumComponentType\<close> is one byte wide. The
  \<^verbatim>\<open>static_assert\<close> of the constructor needs \<^verbatim>\<open>sizeof(value)\<close> to be at least five, so
  \<^verbatim>\<open>value\<close> is taken as the 64-bit integer. A key is the list of the bytes of its
  storage, lowest address first.
\<close>

type_synonym TypeKey = "byte list"

definition sizeof_value :: nat where
  "sizeof_value = 8"

definition sizeof_components :: nat where
  "sizeof_components = 5"

definition offsetof_basicType :: nat where "offsetof_basicType = 0"
definition offsetof_precision :: nat where "offsetof_precision = 1"
definition offsetof_qualifier :: nat where "offsetof_qualifier = 2"
definition offsetof_primarySize :: nat where "offsetof_primarySize = 3"
definition offsetof_secondarySize :: nat where "offsetof_secondarySize = 4"

text \<open>\<^verbatim>\<open>std::numeric_limits<EnumComponentType>::max()\<close>\<close>

definition MaxEnumValue :: nat where
  "MaxEnumValue = unat (- 1 :: byte)"

text \<open>The condition of the \<^verbatim>\<open>ASSERT\<close> at lines 50 to 53.\<close>

definition TypeKey_assertion :: "build \<Rightarrow> bool" where
  "TypeKey_assertion b =
     (MaxEnumValue \<ge> EbtLast b \<and> MaxEnumValue \<ge> EbpLast b \<and> MaxEnumValue \<ge> EvqLast b)"

text \<open>\<^verbatim>\<open>static_cast<EnumComponentType>(e)\<close>: the value modulo 256.\<close>

definition to_EnumComponentType :: "int \<Rightarrow> byte" where
  "to_EnumComponentType e = word_of_int e"

text \<open>\<^verbatim>\<open>value = 0\<close> writes every byte of the integer.\<close>

definition assign_value_0 :: "TypeKey \<Rightarrow> TypeKey" where
  "assign_value_0 this = replicate sizeof_value 0"

definition assign_component :: "nat \<Rightarrow> byte \<Rightarrow> TypeKey \<Rightarrow> TypeKey" where
  "assign_component off x this = this[off := x]"

text \<open>
  The constructor, run on the storage \<open>this\<close> of the new key, whose bytes are
  whatever the storage held before.
\<close>

definition TypeKey_ctor ::
  "build \<Rightarrow> TypeKey \<Rightarrow> TBasicType \<Rightarrow> TPrecision \<Rightarrow> TQualifier \<Rightarrow> byte \<Rightarrow> byte
     \<Rightarrow> fault + TypeKey" where
  "TypeKey_ctor b this bt pr qu ps ss =
     (if asserts_enabled b \<and> \<not> TypeKey_assertion b then Inl AssertionFailure
      else Inr
        (assign_component offsetof_secondarySize ss
        (assign_component offsetof_primarySize ps
        (assign_component offsetof_qualifier (to_EnumComponentType qu)
        (assign_component offsetof_precision (to_EnumComponentType pr)
        (assign_component offsetof_basicType (to_EnumComponentType bt)
        (assign_value_0 this)))))))"

text \<open>Reading the member \<^verbatim>\<open>value\<close> of a key.\<close>

definition TypeKey_value :: "endian \<Rightarrow> TypeKey \<Rightarrow> 64 word" where
  "TypeKey_value e k =
     (case e of BigEndian \<Rightarrow> word_rcat k | LittleEndian \<Rightarrow> word_rcat (rev k))"

text \<open>
  Modelled from the spec: \<^verbatim>\<open>TypeKey::Comparator\<close> (Cache.h) orders keys by \<^verbatim>\<open>value\<close>, so
  the map \<^verbatim>\<open>mTypes\<close> identifies two keys exactly when their values are equal.
\<close>

definition Comparator :: "endian \<Rightarrow> TypeKey \<Rightarrow> TypeKey \<Rightarrow> bool" where
  "Comparator e a b = (TypeKey_value e a < TypeKey_value e b)"

subsection \<open>Objects and the program state\<close>

datatype ptr = nullptr | Addr nat

text \<open>
  A \<^verbatim>\<open>TPoolAllocator*\<close>: null, the member \<^verbatim>\<open>mAllocator\<close> of the cache instance at an
  address, or an allocator owned by a caller.
\<close>

datatype allocator_ptr = NullAllocator | CacheAllocator nat | CallerAllocator nat

text \<open>
  Modelled from the spec: \<^verbatim>\<open>TType\<close> (Types.h) is constructed from the five attributes
  and finalised by \<^verbatim>\<open>realize()\<close>. The field \<open>tt_realized\<close> is \<open>None\<close> until
  \<^verbatim>\<open>realize()\<close> has run; then it holds the allocator that was the ambient one during
  that call.
\<close>

record TType =
  tt_basicType :: TBasicType
  tt_precision :: TPrecision
  tt_qualifier :: TQualifier
  tt_primarySize :: byte
  tt_secondarySize :: byte
  tt_realized :: "allocator_ptr option"

text \<open>
  Modelled from the spec: class \<^verbatim>\<open>TCache\<close> (Cache.h) has the mapping \<^verbatim>\<open>mTypes\<close> from
  keys, compared by value, to descriptor pointers, and the arena \<^verbatim>\<open>mAllocator\<close>. The
  arena of the instance at address \<open>c\<close> is \<open>CacheAllocator c\<close>; its contents are the
  descriptors of the state that carry this tag.
\<close>

record TCache =
  mTypes :: "64 word \<rightharpoonup> ptr"

text \<open>
  The memory the system can still hand out: without limit, or a number of further
  allocation requests. A request is served unless none is left.
\<close>

datatype memory = Unlimited | Left nat

definition exhausted :: "memory \<Rightarrow> bool" where
  "exhausted m = (m = Left 0)"

definition take_one :: "memory \<Rightarrow> memory" where
  "take_one m = (case m of Unlimited \<Rightarrow> Unlimited | Left n \<Rightarrow> Left (n - 1))"

text \<open>
  The state of the process. \<open>caches\<close> and \<open>types\<close> hold the live objects by address;
  \<open>next_cache\<close> and \<open>next_type\<close> lie above every address that was handed out.
  \<open>auto_storage\<close> is what lies where \<^verbatim>\<open>getType\<close> places its local \<^verbatim>\<open>key\<close>.
\<close>

record world =
  sCache :: ptr
  caches :: "nat \<rightharpoonup> TCache"
  types :: "nat \<rightharpoonup> allocator_ptr \<times> TType"
  globalPoolAllocator :: allocator_ptr
  next_cache :: nat
  next_type :: nat
  free_mem :: memory
  auto_storage :: TypeKey

text \<open>Line 63: \<^verbatim>\<open>TCache *TCache::sCache = nullptr\<close>, in a process that has allocated nothing.\<close>

definition startup :: world where
  "startup =
     \<lparr>sCache = nullptr, caches = Map.empty, types = Map.empty,
      globalPoolAllocator = NullAllocator, next_cache = 0, next_type = 0,
      free_mem = Unlimited, auto_storage = []\<rparr>"

subsection \<open>The ambient allocator and TScopedAllocator\<close>

text \<open>
  Modelled from the spec: \<^verbatim>\<open>GetGlobalPoolAllocator\<close> and \<^verbatim>\<open>SetGlobalPoolAllocator\<close>
  (PoolAlloc.h) read and write the ambient allocation target.
\<close>

definition GetGlobalPoolAllocator :: "world \<Rightarrow> allocator_ptr" where
  "GetGlobalPoolAllocator w = globalPoolAllocator w"

definition SetGlobalPoolAllocator :: "allocator_ptr \<Rightarrow> world \<Rightarrow> world" where
  "SetGlobalPoolAllocator a w = w\<lparr>globalPoolAllocator := a\<rparr>"

record TScopedAllocator =
  mPreviousAllocator :: allocator_ptr

definition TScopedAllocator_ctor :: "allocator_ptr \<Rightarrow> world \<Rightarrow> TScopedAllocator \<times> world" where
  "TScopedAllocator_ctor allocator w =
     (\<lparr>mPreviousAllocator = GetGlobalPoolAllocator w\<rparr>, SetGlobalPoolAllocator allocator w)"

definition TScopedAllocator_dtor :: "TScopedAllocator \<Rightarrow> world \<Rightarrow> world" where
  "TScopedAllocator_dtor this w = SetGlobalPoolAllocator (mPreviousAllocator this) w"

subsection \<open>Allocation\<close>

text \<open>
  Modelled from the spec: the spec leaves open where an allocator places a new object.
  Storage that was freed may be used again, so a new object gets the lowest address
  at which no object lives; \<open>bound\<close> lies above the addresses in use.
\<close>

definition first_free :: "(nat \<rightharpoonup> 'a) \<Rightarrow> nat \<Rightarrow> nat" where
  "first_free m bound =
     (case find (\<lambda>n. m n = None) [0..<bound] of Some n \<Rightarrow> n | None \<Rightarrow> bound)"

definition allocator_live :: "world \<Rightarrow> allocator_ptr \<Rightarrow> bool" where
  "allocator_live w a =
     (case a of NullAllocator \<Rightarrow> False
      | CacheAllocator c \<Rightarrow> caches w c \<noteq> None
      | CallerAllocator _ \<Rightarrow> True)"

text \<open>
  Modelled from the spec: \<^verbatim>\<open>new TType(...)\<close> takes the storage of the descriptor from
  the ambient allocator and constructs it from the five attributes. It returns the
  address of the new object, or fails when no memory is left.
\<close>

definition new_TType ::
  "TBasicType \<Rightarrow> TPrecision \<Rightarrow> TQualifier \<Rightarrow> byte \<Rightarrow> byte \<Rightarrow> world \<Rightarrow> fault + nat \<times> world" where
  "new_TType bt pr qu ps ss w =
     (case GetGlobalPoolAllocator w of
        NullAllocator \<Rightarrow> Inl NullAllocatorDeref
      | a \<Rightarrow>
          if \<not> allocator_live w a then Inl DanglingAllocator
          else if exhausted (free_mem w) then Inl BadAlloc
          else Inr (first_free (types w) (next_type w),
            w\<lparr>types := (types w)(first_free (types w) (next_type w) \<mapsto>
                 (a, \<lparr>tt_basicType = bt, tt_precision = pr, tt_qualifier = qu,
                      tt_primarySize = ps, tt_secondarySize = ss, tt_realized = None\<rparr>)),
              next_type := max (next_type w) (Suc (first_free (types w) (next_type w))),
              free_mem := take_one (free_mem w)\<rparr>))"

text \<open>Modelled from the spec: \<^verbatim>\<open>TType::realize()\<close>, the finalize step of a descriptor.\<close>

definition TType_realize :: "nat \<Rightarrow> world \<Rightarrow> world" where
  "TType_realize n w =
     (case types w n of
        None \<Rightarrow> w
      | Some (a, t) \<Rightarrow>
          w\<lparr>types := (types w)(n \<mapsto> (a, t\<lparr>tt_realized := Some (GetGlobalPoolAllocator w)\<rparr>))\<rparr>)"

text \<open>
  \<^verbatim>\<open>sCache->mTypes.insert(std::make_pair(key, type))\<close> for the instance at \<open>c\<close>: an
  entry whose key is present already is kept; otherwise the map allocates a node for
  the new entry, which fails when no memory is left and then leaves the map as it was.
\<close>

definition mTypes_insert :: "nat \<Rightarrow> 64 word \<Rightarrow> ptr \<Rightarrow> world \<Rightarrow> fault + world" where
  "mTypes_insert c k p w =
     (case caches w c of
        None \<Rightarrow> Inl DanglingCacheDeref
      | Some tc \<Rightarrow>
          (case mTypes tc k of
             Some _ \<Rightarrow> Inr w
           | None \<Rightarrow>
               if exhausted (free_mem w) then Inl BadAlloc
               else Inr (w\<lparr>caches := (caches w)(c \<mapsto> tc\<lparr>mTypes := (mTypes tc)(k \<mapsto> p)\<rparr>),
                          free_mem := take_one (free_mem w)\<rparr>)))"

text \<open>
  Modelled from the spec: \<^verbatim>\<open>new TCache()\<close> (the constructor is in Cache.h) gives an
  instance with an empty mapping and a fresh arena, or fails when no memory is left.
\<close>

definition new_TCache :: "world \<Rightarrow> fault + ptr \<times> world" where
  "new_TCache w =
     (if exhausted (free_mem w) then Inl BadAlloc
      else Inr (Addr (first_free (caches w) (next_cache w)),
        w\<lparr>caches := (caches w)(first_free (caches w) (next_cache w) \<mapsto> \<lparr>mTypes = Map.empty\<rparr>),
          next_cache := max (next_cache w) (Suc (first_free (caches w) (next_cache w))),
          free_mem := take_one (free_mem w)\<rparr>))"

text \<open>
  Modelled from the spec: \<^verbatim>\<open>delete p\<close> for a \<^verbatim>\<open>TCache*\<close> does nothing for the null
  pointer; otherwise the instance goes, and with its arena every descriptor allocated
  from it.
\<close>

definition delete_TCache :: "ptr \<Rightarrow> world \<Rightarrow> world" where
  "delete_TCache p w =
     (case p of
        nullptr \<Rightarrow> w
      | Addr c \<Rightarrow>
          w\<lparr>caches := (caches w)(c := None),
            types := (\<lambda>n. case types w n of
                        None \<Rightarrow> None
                      | Some (a, t) \<Rightarrow> if a = CacheAllocator c then None else Some (a, t))\<rparr>)"

text \<open>
  Modelled from the spec: \<^verbatim>\<open>SafeDelete\<close> (common/angleutils.h) deletes the object its
  argument points to, if any, and leaves the pointer null.
\<close>

definition SafeDelete_sCache :: "world \<Rightarrow> world" where
  "SafeDelete_sCache w = (delete_TCache (sCache w) w)\<lparr>sCache := nullptr\<rparr>"

subsection \<open>The operations of TCache\<close>

definition initialize :: "world \<Rightarrow> (fault + unit) \<times> world" where
  "initialize w =
     (if sCache w = nullptr then
        (case new_TCache w of
           Inl e \<Rightarrow> (Inl e, w)
         | Inr (p, w') \<Rightarrow> (Inr (), w'\<lparr>sCache := p\<rparr>))
      else (Inr (), w))"

definition destroy :: "world \<Rightarrow> world" where
  "destroy w = SafeDelete_sCache w"

text \<open>
  \<^verbatim>\<open>getType\<close>, lines 128 to 151. The destructor of \<^verbatim>\<open>scopedAllocator\<close> runs on every
  way out of its scope: the return, and the failure of \<^verbatim>\<open>new TType\<close> or of the insert.
\<close>

definition getType ::
  "build \<Rightarrow> TBasicType \<Rightarrow> TPrecision \<Rightarrow> TQualifier \<Rightarrow> byte \<Rightarrow> byte \<Rightarrow> world
     \<Rightarrow> (fault + ptr) \<times> world" where
  "getType b bt pr qu ps ss w =
     (case TypeKey_ctor b (auto_storage w) bt pr qu ps ss of
        Inl e \<Rightarrow> (Inl e, w)
      | Inr key \<Rightarrow>
     (case sCache w of
        nullptr \<Rightarrow> (Inl NullCacheDeref, w)
      | Addr c \<Rightarrow>
     (case caches w c of
        None \<Rightarrow> (Inl DanglingCacheDeref, w)
      | Some tc \<Rightarrow>
     (case mTypes tc (TypeKey_value (byte_order b) key) of
        Some it \<Rightarrow> (Inr it, w)
      | None \<Rightarrow>
     (case TScopedAllocator_ctor (CacheAllocator c) w of
        (scopedAllocator, w1) \<Rightarrow>
     (case new_TType bt pr qu ps ss w1 of
        Inl e \<Rightarrow> (Inl e, TScopedAllocator_dtor scopedAllocator w1)
      | Inr (n, w2) \<Rightarrow>
     (case mTypes_insert c (TypeKey_value (byte_order b) key) (Addr n) (TType_realize n w2) of
        Inl e \<Rightarrow> (Inl e, TScopedAllocator_dtor scopedAllocator (TType_realize n w2))
      | Inr w3 \<Rightarrow> (Inr (Addr n), TScopedAllocator_dtor scopedAllocator w3))))))))"

subsection \<open>Runs of the program\<close>

text \<open>
  What happens to the state over the life of the process: the three operations, and
  the activity of the callers in between, who install allocators of their own (or
  none), use or free memory, and leave other bytes on the stack.
\<close>

datatype op =
    Initialize
  | Destroy
  | GetType TBasicType TPrecision TQualifier byte byte
  | Caller "nat option" memory TypeKey

definition caller_step :: "nat option \<Rightarrow> memory \<Rightarrow> TypeKey \<Rightarrow> world \<Rightarrow> world" where
  "caller_step a m j w =
     w\<lparr>globalPoolAllocator := (case a of None \<Rightarrow> NullAllocator | Some n \<Rightarrow> CallerAllocator n),
       free_mem := m, auto_storage := j\<rparr>"

fun step :: "build \<Rightarrow> op \<Rightarrow> world \<Rightarrow> world" where
  "step b Initialize w = snd (initialize w)"
| "step b Destroy w = destroy w"
| "step b (GetType bt pr qu ps ss) w = snd (getType b bt pr qu ps ss w)"
| "step b (Caller a m j) w = caller_step a m j w"

fun run :: "build \<Rightarrow> op list \<Rightarrow> world \<Rightarrow> world" where
  "run b [] w = w"
| "run b (x # xs) w = run b xs (step b x w)"

text \<open>
  The mapping of the live cache (empty when there is none), the pointers it holds, the
  arena a live descriptor was allocated from, and the allocator under which it was
  realized.
\<close>

definition live_mTypes :: "world \<Rightarrow> (64 word \<rightharpoonup> ptr)" where
  "live_mTypes w =
     (case sCache w of
        nullptr \<Rightarrow> Map.empty
      | Addr c \<Rightarrow> (case caches w c of None \<Rightarrow> Map.empty | Some tc \<Rightarrow> mTypes tc))"

definition cached :: "world \<Rightarrow> ptr set" where
  "cached w = ran (live_mTypes w)"

definition allocated_from :: "world \<Rightarrow> ptr \<Rightarrow> allocator_ptr option" where
  "allocated_from w p =
     (case p of nullptr \<Rightarrow> None | Addr n \<Rightarrow> map_option fst (types w n))"

definition realized_under :: "world \<Rightarrow> ptr \<Rightarrow> allocator_ptr option" where
  "realized_under w p =
     (case p of
        nullptr \<Rightarrow> None
      | Addr n \<Rightarrow> (case types w n of None \<Rightarrow> None | Some (a, t) \<Rightarrow> tt_realized t))"

text \<open>The values of an enumeration that the component type represents.\<close>

definition in_component_range :: "int \<Rightarrow> bool" where
  "in_component_range e \<longleftrightarrow> 0 \<le> e \<and> e \<le> int MaxEnumValue"

text \<open>
  The two states in which the miss path of \<^verbatim>\<open>getType\<close> can leave \<open>w\<close> once the
  descriptor exists, for the cache at \<open>c\<close>: the descriptor constructed and realized in
  the arena of the cache, and then also entered under the key value \<open>k\<close>.
\<close>

definition constructed_world ::
  "nat \<Rightarrow> TBasicType \<Rightarrow> TPrecision \<Rightarrow> TQualifier \<Rightarrow> byte \<Rightarrow> byte \<Rightarrow> world \<Rightarrow> world" where
  "constructed_world c bt pr qu ps ss w =
     w\<lparr>types := (types w)(first_free (types w) (next_type w) \<mapsto>
                 (CacheAllocator c, \<lparr>tt_basicType = bt, tt_precision = pr, tt_qualifier = qu,
                      tt_primarySize = ps, tt_secondarySize = ss,
                      tt_realized = Some (CacheAllocator c)\<rparr>)),
       next_type := max (next_type w) (Suc (first_free (types w) (next_type w))),
       free_mem := take_one (free_mem w)\<rparr>"

definition miss_world ::
  "nat \<Rightarrow> TCache \<Rightarrow> 64 word \<Rightarrow> TBasicType \<Rightarrow> TPrecision \<Rightarrow> TQualifier \<Rightarrow> byte \<Rightarrow> byte
     \<Rightarrow> world \<Rightarrow> world" where
  "miss_world c tc k bt pr qu ps ss w =
     (constructed_world c bt pr qu ps ss w)
       \<lparr>caches := (caches w)(c \<mapsto>
          tc\<lparr>mTypes := (mTypes tc)(k \<mapsto> Addr (first_free (types w) (next_type w)))\<rparr>),
        free_mem := take_one (take_one (free_mem w))\<rparr>"

text \<open>
  The invariant of the states the program reaches: \<^verbatim>\<open>sCache\<close> is null or points to the
  one live instance; addresses in use lie below the bounds; every pointer in the
  mapping is the address of a live descriptor in the arena of the cache; no two keys
  share a descriptor.
\<close>

definition cache_inv :: "world \<Rightarrow> bool" where
  "cache_inv w \<longleftrightarrow>
     (\<forall>c. sCache w = Addr c \<longrightarrow> caches w c \<noteq> None) \<and>
     (\<forall>c. caches w c \<noteq> None \<longrightarrow> sCache w = Addr c \<and> c < next_cache w) \<and>
     (\<forall>n. types w n \<noteq> None \<longrightarrow> n < next_type w) \<and>
     (\<forall>c tc k p. caches w c = Some tc \<longrightarrow> mTypes tc k = Some p \<longrightarrow>
        (\<exists>n t. p = Addr n \<and> types w n = Some (CacheAllocator c, t))) \<and>
     (\<forall>c tc k k' p. caches w c = Some tc \<longrightarrow> mTypes tc k = Some p \<longrightarrow>
        mTypes tc k' = Some p \<longrightarrow> k = k')"


subsection \<open>Concrete builds and states\<close>

text \<open>
  A build with assertions whose enumerations end at the largest value a component
  holds, and the state after \<^verbatim>\<open>initialize\<close> with memory without limit.
\<close>

definition example_build :: build where
  "example_build =
     \<lparr>byte_order = LittleEndian, asserts_enabled = True,
      EbtLast = 255, EbpLast = 255, EvqLast = 255\<rparr>"

definition example_world :: world where
  "example_world = run example_build [Caller None Unlimited [], Initialize] startup"

text \<open>
  The same with an allocator of the caller installed and memory for the instance
  only, and with memory for the instance and one further allocation.
\<close>

definition starved_world :: world where
  "starved_world = run example_build [Caller (Some 7) (Left 1) [], Initialize] startup"

definition tight_world :: world where
  "tight_world = run example_build [Caller (Some 7) (Left 2) [], Initialize] startup"

section \<open>Properties\<close>

subsection \<open>Keys\<close>

lemma MaxEnumValue_255: "MaxEnumValue = 255"
  by (simp add: MaxEnumValue_def unsigned_minus_1_eq_mask mask_eq_exp_minus_1)

lemma TypeKey_ctor_bytes:
  "TypeKey_ctor b this bt pr qu ps ss = Inr k \<Longrightarrow>
     k = [to_EnumComponentType bt, to_EnumComponentType pr, to_EnumComponentType qu, ps, ss, 0, 0, 0]"
  by (auto simp: TypeKey_ctor_def assign_component_def assign_value_0_def sizeof_value_def
      offsetof_basicType_def offsetof_precision_def offsetof_qualifier_def
      offsetof_primarySize_def offsetof_secondarySize_def numeral_eq_Suc split: if_splits)

lemma TypeKey_ctor_storage:
  "TypeKey_ctor b this bt pr qu ps ss = TypeKey_ctor b this' bt pr qu ps ss"
  by (simp add: TypeKey_ctor_def assign_value_0_def)

lemma bit_word_rcat64:
  "bit (word_rcat (ws :: byte list) :: 64 word) n \<longleftrightarrow>
     n < 64 \<and> n div 8 < length ws \<and> bit (rev ws ! (n div 8)) (n mod 8)"
  using bit_horner_sum_uint_exp_iff [of "rev ws" n]
  by (simp add: word_rcat_def bit_word_of_int_iff)

lemma word_rcat64_inj:
  fixes ws ws' :: "byte list"
  assumes len: "length ws = 8" "length ws' = 8"
      and eq: "(word_rcat ws :: 64 word) = word_rcat ws'"
  shows "ws = ws'"
proof -
  have nth: "rev ws ! i = rev ws' ! i" if i: "i < 8" for i
  proof (rule bit_word_eqI)
    fix j assume "j < LENGTH(8)"
    then have j: "j < 8" by simp
    from i j have n: "8 * i + j < 64" by simp
    have d: "(8 * i + j) div 8 = i" "(8 * i + j) mod 8 = j" using j by simp_all
    have "bit (word_rcat ws :: 64 word) (8 * i + j) = bit (word_rcat ws' :: 64 word) (8 * i + j)"
      by (simp only: eq)
    then show "bit (rev ws ! i) j = bit (rev ws' ! i) j"
      using n i len by (simp only: bit_word_rcat64 d) simp
  qed
  have "rev ws = rev ws'"
    by (rule nth_equalityI) (use len nth in simp_all)
  then show ?thesis by simp
qed

lemma TypeKey_value_inj:
  "length k = 8 \<Longrightarrow> length k' = 8 \<Longrightarrow> TypeKey_value e k = TypeKey_value e k' \<Longrightarrow> k = k'"
proof (cases e)
  case LittleEndian
  assume "length k = 8" "length k' = 8" "TypeKey_value e k = TypeKey_value e k'"
  with LittleEndian have "rev k = rev k'"
    by (intro word_rcat64_inj) (simp_all add: TypeKey_value_def)
  then show ?thesis by simp
next
  case BigEndian
  assume "length k = 8" "length k' = 8" "TypeKey_value e k = TypeKey_value e k'"
  with BigEndian show ?thesis
    by (intro word_rcat64_inj) (simp_all add: TypeKey_value_def)
qed

lemma to_EnumComponentType_inj:
  "0 \<le> x \<Longrightarrow> x \<le> 255 \<Longrightarrow> 0 \<le> y \<Longrightarrow> y \<le> 255 \<Longrightarrow>
     to_EnumComponentType x = to_EnumComponentType y \<Longrightarrow> x = y"
  by (simp add: to_EnumComponentType_def word_of_int_eq_iff take_bit_int_eq_self)



lemma TypeKey_ctor_length:
  "TypeKey_ctor b this bt pr qu ps ss = Inr k \<Longrightarrow> length k = 8"
  by (drule TypeKey_ctor_bytes) simp

lemma static_assert_holds: "sizeof_components \<le> sizeof_value"
  by (simp add: sizeof_components_def sizeof_value_def)

lemma Comparator_equiv:
  "\<not> Comparator e a b \<and> \<not> Comparator e b a \<longleftrightarrow> TypeKey_value e a = TypeKey_value e b"
  by (auto simp: Comparator_def)

lemma TypeKey_ctor_inj:
  assumes r1: "in_component_range bt1" "in_component_range pr1" "in_component_range qu1"
      and r2: "in_component_range bt2" "in_component_range pr2" "in_component_range qu2"
      and k1: "TypeKey_ctor b this1 bt1 pr1 qu1 ps1 ss1 = Inr k1"
      and k2: "TypeKey_ctor b this2 bt2 pr2 qu2 ps2 ss2 = Inr k2"
      and eq: "TypeKey_value e k1 = TypeKey_value e k2"
  shows "(bt1, pr1, qu1, ps1, ss1) = (bt2, pr2, qu2, ps2, ss2)"
proof -
  from TypeKey_value_inj [OF TypeKey_ctor_length [OF k1] TypeKey_ctor_length [OF k2] eq]
  have "k1 = k2" .
  with TypeKey_ctor_bytes [OF k1] TypeKey_ctor_bytes [OF k2]
  have "to_EnumComponentType bt1 = to_EnumComponentType bt2"
       "to_EnumComponentType pr1 = to_EnumComponentType pr2"
       "to_EnumComponentType qu1 = to_EnumComponentType qu2" "ps1 = ps2" "ss1 = ss2"
    by simp_all
  with r1 r2 show ?thesis
    by (auto simp: in_component_range_def MaxEnumValue_255 dest: to_EnumComponentType_inj)
qed

lemma TypeKey_ctor_passes:
  "\<not> asserts_enabled b \<or> TypeKey_assertion b \<Longrightarrow>
     TypeKey_ctor b this bt pr qu ps ss =
       Inr [to_EnumComponentType bt, to_EnumComponentType pr, to_EnumComponentType qu, ps, ss, 0, 0, 0]"
proof -
  assume "\<not> asserts_enabled b \<or> TypeKey_assertion b"
  then obtain k where k: "TypeKey_ctor b this bt pr qu ps ss = Inr k"
    by (auto simp: TypeKey_ctor_def)
  from TypeKey_ctor_bytes [OF k] k show ?thesis by simp
qed

lemma TypeKey_ctor_any_storage:
  "TypeKey_ctor b this bt pr qu ps ss = Inr key \<Longrightarrow> TypeKey_ctor b this' bt pr qu ps ss = Inr key"
  by (simp add: TypeKey_ctor_storage [of b this' _ _ _ _ _ this])

lemma example_build_assertion: "TypeKey_assertion example_build"
  by (simp add: TypeKey_assertion_def example_build_def MaxEnumValue_255)

text \<open>
  C8: building the key of one attribute tuple twice gives the same result, whatever
  the two storages held before. When the assertion passes or is compiled out, the
  constructor produces a key whose eight bytes are the five components followed by
  three zero bytes: it zeroes the whole integer and then writes the fields. In a build
  with assertions it stops when the assertion fails.
\<close>

theorem TypeKey_deterministic:
  "TypeKey_ctor b this bt pr qu ps ss = TypeKey_ctor b this' bt pr qu ps ss \<and>
   (\<not> asserts_enabled b \<or> TypeKey_assertion b \<longrightarrow>
      TypeKey_ctor b this bt pr qu ps ss =
        Inr [to_EnumComponentType bt, to_EnumComponentType pr, to_EnumComponentType qu,
             ps, ss, 0, 0, 0]) \<and>
   (asserts_enabled b \<and> \<not> TypeKey_assertion b \<longrightarrow>
      TypeKey_ctor b this bt pr qu ps ss = Inl AssertionFailure)"
proof (intro conjI impI)
  show "TypeKey_ctor b this bt pr qu ps ss = TypeKey_ctor b this' bt pr qu ps ss"
    by (rule TypeKey_ctor_storage)
  show "TypeKey_ctor b this bt pr qu ps ss =
        Inr [to_EnumComponentType bt, to_EnumComponentType pr, to_EnumComponentType qu,
             ps, ss, 0, 0, 0]"
    if "\<not> asserts_enabled b \<or> TypeKey_assertion b"
    using that by (rule TypeKey_ctor_passes)
  show "TypeKey_ctor b this bt pr qu ps ss = Inl AssertionFailure"
    if "asserts_enabled b \<and> \<not> TypeKey_assertion b"
    using that by (simp add: TypeKey_ctor_def)
qed

theorem TypeKey_deterministic_witness:
  "TypeKey_assertion example_build \<and>
   TypeKey_ctor example_build [7, 7, 7, 7, 7, 7, 7, 7] 1 2 3 4 1 = Inr [1, 2, 3, 4, 1, 0, 0, 0] \<and>
   TypeKey_ctor example_build [] 1 2 3 4 1 = Inr [1, 2, 3, 4, 1, 0, 0, 0] \<and>
   asserts_enabled (example_build\<lparr>EbtLast := 256\<rparr>) \<and>
   \<not> TypeKey_assertion (example_build\<lparr>EbtLast := 256\<rparr>) \<and>
   TypeKey_ctor (example_build\<lparr>EbtLast := 256\<rparr>) [] 1 2 3 4 1 = Inl AssertionFailure"
proof -
  let ?junk = "[7, 7, 7, 7, 7, 7, 7, 7] :: TypeKey"
  let ?bad = "example_build\<lparr>EbtLast := 256\<rparr>"
  have a: "TypeKey_assertion example_build" by (rule example_build_assertion)
  have c: "(to_EnumComponentType 1 :: byte) = 1" "(to_EnumComponentType 2 :: byte) = 2"
    "(to_EnumComponentType 3 :: byte) = 3"
    by (simp_all add: to_EnumComponentType_def)
  note d = TypeKey_deterministic [of example_build ?junk 1 2 3 4 1 "[]", unfolded c]
  from d a have k: "TypeKey_ctor example_build ?junk 1 2 3 4 1 = Inr [1, 2, 3, 4, 1, 0, 0, 0]"
    by blast
  from d have e: "TypeKey_ctor example_build ?junk 1 2 3 4 1 = TypeKey_ctor example_build [] 1 2 3 4 1"
    by blast
  have b: "asserts_enabled ?bad" "\<not> TypeKey_assertion ?bad"
    by (simp_all add: TypeKey_assertion_def example_build_def MaxEnumValue_255)
  with TypeKey_deterministic [of ?bad "[]" 1 2 3 4 1 "[]"]
  have f: "TypeKey_ctor ?bad [] 1 2 3 4 1 = Inl AssertionFailure" by blast
  from e k have "TypeKey_ctor example_build [] 1 2 3 4 1 = Inr [1, 2, 3, 4, 1, 0, 0, 0]"
    by simp
  with a k b f show ?thesis by simp
qed

subsection \<open>Memory and addresses\<close>

lemma exhausted_simps [simp]:
  "\<not> exhausted Unlimited" "exhausted (Left n) \<longleftrightarrow> n = 0"
  by (simp_all add: exhausted_def)

lemma take_one_simps [simp]:
  "take_one Unlimited = Unlimited" "take_one (Left n) = Left (n - 1)"
  by (simp_all add: take_one_def)

lemma first_free_le: "first_free m bound \<le> bound"
  by (auto simp: first_free_def find_Some_iff split: option.splits)

lemma first_free_free:
  assumes "\<And>n x. m n = Some x \<Longrightarrow> n < bound"
  shows "m (first_free m bound) = None"
proof (cases "find (\<lambda>n. m n = None) [0..<bound]")
  case None
  then have "first_free m bound = bound" by (simp add: first_free_def)
  moreover have "m bound = None"
  proof (cases "m bound")
    case (Some x)
    from assms [OF this] show ?thesis by simp
  qed simp
  ultimately show ?thesis by simp
next
  case (Some n)
  then have "first_free m bound = n" by (simp add: first_free_def)
  moreover from Some have "m n = None" by (auto simp: find_Some_iff)
  ultimately show ?thesis by simp
qed

lemma first_free_empty [simp]: "first_free Map.empty bound = 0"
  by (cases bound) (simp_all add: first_free_def upt_rec [of 0])

lemma first_free_0 [simp]: "first_free m 0 = 0"
  by (simp add: first_free_def)

subsection \<open>The outcomes of getType\<close>

lemma scoped_restore:
  "TScopedAllocator_dtor (fst (TScopedAllocator_ctor a w)) (snd (TScopedAllocator_ctor a w)) = w"
  by (simp add: TScopedAllocator_dtor_def TScopedAllocator_ctor_def
      SetGlobalPoolAllocator_def GetGlobalPoolAllocator_def)

lemma getType_hit:
  assumes "TypeKey_ctor b (auto_storage w) bt pr qu ps ss = Inr key"
      and "sCache w = Addr c" and "caches w c = Some tc"
      and "mTypes tc (TypeKey_value (byte_order b) key) = Some it"
  shows "getType b bt pr qu ps ss w = (Inr it, w)"
  using assms by (simp add: getType_def)

lemma getType_miss:
  assumes "TypeKey_ctor b (auto_storage w) bt pr qu ps ss = Inr key"
      and "sCache w = Addr c" and "caches w c = Some tc"
      and "mTypes tc (TypeKey_value (byte_order b) key) = None"
  shows "getType b bt pr qu ps ss w =
     (if exhausted (free_mem w) then (Inl BadAlloc, w)
      else if exhausted (take_one (free_mem w))
        then (Inl BadAlloc, constructed_world c bt pr qu ps ss w)
      else (Inr (Addr (first_free (types w) (next_type w))),
            miss_world c tc (TypeKey_value (byte_order b) key) bt pr qu ps ss w))"
  using assms
  by (simp add: getType_def TScopedAllocator_dtor_def TScopedAllocator_ctor_def
      SetGlobalPoolAllocator_def GetGlobalPoolAllocator_def new_TType_def allocator_live_def
      TType_realize_def mTypes_insert_def miss_world_def constructed_world_def)

lemma getType_cases:
  obtains (same) "snd (getType b bt pr qu ps ss w) = w"
      "\<And>p. fst (getType b bt pr qu ps ss w) = Inr p \<Longrightarrow>
         \<exists>key c tc. TypeKey_ctor b (auto_storage w) bt pr qu ps ss = Inr key \<and>
           sCache w = Addr c \<and> caches w c = Some tc \<and>
           mTypes tc (TypeKey_value (byte_order b) key) = Some p"
    | (orphan) key c tc where "TypeKey_ctor b (auto_storage w) bt pr qu ps ss = Inr key"
      "sCache w = Addr c" "caches w c = Some tc"
      "mTypes tc (TypeKey_value (byte_order b) key) = None"
      "fst (getType b bt pr qu ps ss w) = Inl BadAlloc"
      "snd (getType b bt pr qu ps ss w) = constructed_world c bt pr qu ps ss w"
    | (miss) key c tc where "TypeKey_ctor b (auto_storage w) bt pr qu ps ss = Inr key"
      "sCache w = Addr c" "caches w c = Some tc"
      "mTypes tc (TypeKey_value (byte_order b) key) = None"
      "\<not> exhausted (free_mem w)" "\<not> exhausted (take_one (free_mem w))"
      "fst (getType b bt pr qu ps ss w) = Inr (Addr (first_free (types w) (next_type w)))"
      "snd (getType b bt pr qu ps ss w) =
         miss_world c tc (TypeKey_value (byte_order b) key) bt pr qu ps ss w"
proof (cases "TypeKey_ctor b (auto_storage w) bt pr qu ps ss")
  case (Inl e)
  then show thesis by (intro same) (simp_all add: getType_def)
next
  case (Inr key)
  note key = this
  show thesis
  proof (cases "sCache w")
    case nullptr
    with key show thesis by (intro same) (simp_all add: getType_def)
  next
    case (Addr c)
    note c = this
    show thesis
    proof (cases "caches w c")
      case None
      with key c show thesis by (intro same) (simp_all add: getType_def)
    next
      case (Some tc)
      note tc = this
      show thesis
      proof (cases "mTypes tc (TypeKey_value (byte_order b) key)")
        case (Some it)
        from getType_hit [OF key c tc Some] key c tc Some
        show thesis by (intro same) simp_all
      next
        case None
        note g = getType_miss [OF key c tc None]
        consider "exhausted (free_mem w)"
          | "\<not> exhausted (free_mem w)" "exhausted (take_one (free_mem w))"
          | "\<not> exhausted (free_mem w)" "\<not> exhausted (take_one (free_mem w))" by blast
        then show thesis
        proof cases
          case 1
          with g show thesis by (intro same) simp_all
        next
          case 2
          with g show thesis by (intro orphan [OF key c tc None]) simp_all
        next
          case 3
          with g show thesis by (intro miss [OF key c tc None]) simp_all
        qed
      qed
    qed
  qed
qed

lemma getType_Inr_cases:
  assumes "fst (getType b bt pr qu ps ss w) = Inr p"
  obtains (hit) key c tc where "TypeKey_ctor b (auto_storage w) bt pr qu ps ss = Inr key"
      "sCache w = Addr c" "caches w c = Some tc"
      "mTypes tc (TypeKey_value (byte_order b) key) = Some p"
      "snd (getType b bt pr qu ps ss w) = w"
    | (miss) key c tc where "TypeKey_ctor b (auto_storage w) bt pr qu ps ss = Inr key"
      "sCache w = Addr c" "caches w c = Some tc"
      "mTypes tc (TypeKey_value (byte_order b) key) = None"
      "\<not> exhausted (free_mem w)" "\<not> exhausted (take_one (free_mem w))"
      "p = Addr (first_free (types w) (next_type w))"
      "snd (getType b bt pr qu ps ss w) =
         miss_world c tc (TypeKey_value (byte_order b) key) bt pr qu ps ss w"
proof (cases rule: getType_cases [of b bt pr qu ps ss w])
  case same
  from same(2) [OF assms] obtain key c tc where
    "TypeKey_ctor b (auto_storage w) bt pr qu ps ss = Inr key"
    "sCache w = Addr c" "caches w c = Some tc"
    "mTypes tc (TypeKey_value (byte_order b) key) = Some p" by blast
  with same(1) show thesis by (intro hit)
next
  case orphan
  with assms show thesis by simp
next
  case (miss key c tc)
  with assms show thesis by (intro that(2) [OF miss(1-6)]) simp_all
qed

subsection \<open>The invariant of the reachable states\<close>

lemma cache_inv_startup: "cache_inv startup"
  by (simp add: cache_inv_def startup_def)

lemma cache_inv_cong:
  "sCache w' = sCache w \<Longrightarrow> caches w' = caches w \<Longrightarrow> types w' = types w \<Longrightarrow>
     next_cache w' = next_cache w \<Longrightarrow> next_type w' = next_type w \<Longrightarrow>
     cache_inv w' = cache_inv w"
  by (simp add: cache_inv_def)

lemma cache_inv_caller: "cache_inv w \<Longrightarrow> cache_inv (caller_step a m j w)"
  using cache_inv_cong [of "caller_step a m j w" w] by (simp add: caller_step_def)

lemma cache_inv_typesD: "cache_inv w \<Longrightarrow> types w n = Some x \<Longrightarrow> n < next_type w"
  unfolding cache_inv_def by blast

lemma cache_inv_onlyD: "cache_inv w \<Longrightarrow> caches w c = Some tc \<Longrightarrow> sCache w = Addr c"
  unfolding cache_inv_def by blast

lemma cache_inv_boundD: "cache_inv w \<Longrightarrow> caches w c = Some tc \<Longrightarrow> c < next_cache w"
  unfolding cache_inv_def by blast

lemma cache_inv_liveD: "cache_inv w \<Longrightarrow> sCache w = Addr c \<Longrightarrow> \<exists>tc. caches w c = Some tc"
  unfolding cache_inv_def by blast

lemma cache_inv_storedD:
  "cache_inv w \<Longrightarrow> caches w c = Some tc \<Longrightarrow> mTypes tc k = Some p \<Longrightarrow>
     \<exists>n t. p = Addr n \<and> types w n = Some (CacheAllocator c, t)"
  unfolding cache_inv_def by blast

lemma cache_inv_injD:
  "cache_inv w \<Longrightarrow> caches w c = Some tc \<Longrightarrow> mTypes tc k = Some p \<Longrightarrow>
     mTypes tc k' = Some p \<Longrightarrow> k = k'"
  unfolding cache_inv_def by blast

lemma cache_inv_fresh: "cache_inv w \<Longrightarrow> types w (first_free (types w) (next_type w)) = None"
  by (rule first_free_free) (rule cache_inv_typesD)

lemma cache_inv_no_cache:
  assumes "cache_inv w" and "sCache w = nullptr"
  shows "caches w = Map.empty"
proof
  fix c show "caches w c = None"
  proof (cases "caches w c")
    case (Some tc)
    from cache_inv_onlyD [OF assms(1) Some] assms(2) show ?thesis by simp
  qed simp
qed

lemma initialize_fresh:
  assumes "caches w = Map.empty" and "sCache w = nullptr" and "\<not> exhausted (free_mem w)"
  shows "initialize w =
     (Inr (), w\<lparr>caches := [0 \<mapsto> \<lparr>mTypes = Map.empty\<rparr>],
                next_cache := max (next_cache w) (Suc 0),
                free_mem := take_one (free_mem w), sCache := Addr 0\<rparr>)"
  using assms by (simp add: initialize_def new_TCache_def)

lemma initialize_same:
  "sCache w \<noteq> nullptr \<or> exhausted (free_mem w) \<Longrightarrow> snd (initialize w) = w"
  by (auto simp: initialize_def new_TCache_def)

lemma cache_inv_initialize:
  assumes "cache_inv w" shows "cache_inv (snd (initialize w))"
proof (cases "sCache w = nullptr \<and> \<not> exhausted (free_mem w)")
  case False
  with assms show ?thesis by (simp add: initialize_same)
next
  case True
  with assms have empty: "caches w = Map.empty" by (simp add: cache_inv_no_cache)
  have types: "\<forall>n. types w n \<noteq> None \<longrightarrow> n < next_type w"
    using assms unfolding cache_inv_def by blast
  from True empty types show ?thesis
    by (simp add: initialize_fresh cache_inv_def)
qed

lemma cache_inv_destroy:
  assumes "cache_inv w" shows "cache_inv (destroy w)"
proof (cases "sCache w")
  case nullptr
  with assms show ?thesis
    using cache_inv_cong [of "destroy w" w]
    by (simp add: destroy_def SafeDelete_sCache_def delete_TCache_def)
next
  case (Addr c)
  with assms have "\<And>c'. c' \<noteq> c \<Longrightarrow> caches w c' = None"
    by (metis cache_inv_onlyD not_Some_eq ptr.inject)
  then have empty: "(caches w)(c := None) = Map.empty"
    by (auto simp: fun_eq_iff)
  have types: "\<forall>n. types w n \<noteq> None \<longrightarrow> n < next_type w"
    using assms unfolding cache_inv_def by blast
  from Addr types show ?thesis
    by (auto simp: destroy_def SafeDelete_sCache_def delete_TCache_def cache_inv_def empty
        split: option.splits if_splits)
qed

lemma cache_inv_constructed:
  assumes inv: "cache_inv w" and c: "sCache w = Addr c"
  shows "cache_inv (constructed_world c bt pr qu ps ss w)"
proof -
  let ?w = "constructed_world c bt pr qu ps ss w"
  let ?a = "first_free (types w) (next_type w)"
  obtain t where ty: "types ?w = (types w)(?a \<mapsto> (CacheAllocator c, t))"
    by (simp add: constructed_world_def)
  have sC: "sCache ?w = sCache w" and ca: "caches ?w = caches w"
    and nc: "next_cache ?w = next_cache w" and nt: "next_type ?w = max (next_type w) (Suc ?a)"
    by (simp_all add: constructed_world_def)
  have fresh: "types w ?a = None" using inv by (rule cache_inv_fresh)
  have 1: "\<forall>c'. sCache ?w = Addr c' \<longrightarrow> caches ?w c' \<noteq> None"
    using inv unfolding sC ca cache_inv_def by blast
  have 2: "\<forall>c'. caches ?w c' \<noteq> None \<longrightarrow> sCache ?w = Addr c' \<and> c' < next_cache ?w"
    using inv unfolding sC ca nc cache_inv_def by blast
  have 3: "\<forall>n. types ?w n \<noteq> None \<longrightarrow> n < next_type ?w"
  proof (intro allI impI)
    fix n assume n: "types ?w n \<noteq> None"
    show "n < next_type ?w"
    proof (cases "n = ?a")
      case True
      then show ?thesis by (simp add: nt)
    next
      case False
      with n obtain x where "types w n = Some x" by (auto simp: ty)
      from cache_inv_typesD [OF inv this] show ?thesis by (simp add: nt)
    qed
  qed
  have 4: "\<forall>c' tc' k' p. caches ?w c' = Some tc' \<longrightarrow> mTypes tc' k' = Some p \<longrightarrow>
      (\<exists>n t. p = Addr n \<and> types ?w n = Some (CacheAllocator c', t))"
  proof (intro allI impI)
    fix c' tc' k' p
    assume "caches ?w c' = Some tc'" and "mTypes tc' k' = Some p"
    then have "caches w c' = Some tc'" by (simp add: ca)
    from cache_inv_storedD [OF inv this \<open>mTypes tc' k' = Some p\<close>] obtain n t'
      where n: "p = Addr n" "types w n = Some (CacheAllocator c', t')" by blast
    with fresh have "n \<noteq> ?a" by auto
    with n show "\<exists>n t. p = Addr n \<and> types ?w n = Some (CacheAllocator c', t)"
      by (simp add: ty)
  qed
  have 5: "\<forall>c' tc' k1 k2 p. caches ?w c' = Some tc' \<longrightarrow> mTypes tc' k1 = Some p \<longrightarrow>
      mTypes tc' k2 = Some p \<longrightarrow> k1 = k2"
    using inv unfolding ca cache_inv_def by blast
  from 1 2 3 4 5 show ?thesis
    unfolding cache_inv_def by blast
qed

lemma miss_world_fields:
  "sCache (miss_world c tc k bt pr qu ps ss w) = sCache w"
  "caches (miss_world c tc k bt pr qu ps ss w) =
     (caches w)(c \<mapsto> tc\<lparr>mTypes := (mTypes tc)(k \<mapsto> Addr (first_free (types w) (next_type w)))\<rparr>)"
  "types (miss_world c tc k bt pr qu ps ss w) = types (constructed_world c bt pr qu ps ss w)"
  "next_cache (miss_world c tc k bt pr qu ps ss w) = next_cache w"
  "next_type (miss_world c tc k bt pr qu ps ss w) = next_type (constructed_world c bt pr qu ps ss w)"
  "globalPoolAllocator (miss_world c tc k bt pr qu ps ss w) = globalPoolAllocator w"
  by (simp_all add: miss_world_def constructed_world_def)

lemma constructed_world_fields:
  "sCache (constructed_world c bt pr qu ps ss w) = sCache w"
  "caches (constructed_world c bt pr qu ps ss w) = caches w"
  "next_cache (constructed_world c bt pr qu ps ss w) = next_cache w"
  "globalPoolAllocator (constructed_world c bt pr qu ps ss w) = globalPoolAllocator w"
  "types (constructed_world c bt pr qu ps ss w) (first_free (types w) (next_type w)) =
     Some (CacheAllocator c, \<lparr>tt_basicType = bt, tt_precision = pr, tt_qualifier = qu,
        tt_primarySize = ps, tt_secondarySize = ss, tt_realized = Some (CacheAllocator c)\<rparr>)"
  "n \<noteq> first_free (types w) (next_type w) \<Longrightarrow>
     types (constructed_world c bt pr qu ps ss w) n = types w n"
  by (simp_all add: constructed_world_def)

lemma cache_inv_miss:
  assumes inv: "cache_inv w" and c: "sCache w = Addr c" and tc: "caches w c = Some tc"
      and k: "mTypes tc k = None"
  shows "cache_inv (miss_world c tc k bt pr qu ps ss w)"
proof -
  let ?w = "miss_world c tc k bt pr qu ps ss w"
  let ?v = "constructed_world c bt pr qu ps ss w"
  let ?a = "first_free (types w) (next_type w)"
  let ?tc = "tc\<lparr>mTypes := (mTypes tc)(k \<mapsto> Addr ?a)\<rparr>"
  note f = miss_world_fields
  note g = constructed_world_fields
  have invv: "cache_inv ?v" using inv c by (rule cache_inv_constructed)
  have tcv: "caches ?v c = Some tc" using tc by (simp add: g)
  have fresh: "types w ?a = None" using inv by (rule cache_inv_fresh)
  have only: "c' = c \<and> tc' = ?tc" if "caches ?w c' = Some tc'" for c' tc'
  proof (cases "c' = c")
    case True
    with that show ?thesis by (simp add: f)
  next
    case False
    with that have "caches w c' = Some tc'" by (simp add: f)
    from cache_inv_onlyD [OF inv this] c False show ?thesis by simp
  qed
  have old: "\<exists>n t. p = Addr n \<and> n \<noteq> ?a \<and> types ?v n = Some (CacheAllocator c, t)"
    if "mTypes tc k' = Some p" for k' p
  proof -
    from cache_inv_storedD [OF inv tc that] obtain n t
      where n: "p = Addr n" "types w n = Some (CacheAllocator c, t)" by blast
    with fresh have "n \<noteq> ?a" by auto
    with n show ?thesis by (simp add: g)
  qed
  have 1: "\<forall>c'. sCache ?w = Addr c' \<longrightarrow> caches ?w c' \<noteq> None"
    using c by (simp add: f)
  have 2: "\<forall>c'. caches ?w c' \<noteq> None \<longrightarrow> sCache ?w = Addr c' \<and> c' < next_cache ?w"
  proof (intro allI impI)
    fix c' assume "caches ?w c' \<noteq> None"
    then obtain tc' where "caches ?w c' = Some tc'" by blast
    from only [OF this] have "c' = c" by simp
    with cache_inv_boundD [OF inv tc] c
    show "sCache ?w = Addr c' \<and> c' < next_cache ?w" by (simp add: f)
  qed
  have 3: "\<forall>n. types ?w n \<noteq> None \<longrightarrow> n < next_type ?w"
    using invv unfolding f(3,5) cache_inv_def by blast
  have 4: "\<forall>c' tc' k' p. caches ?w c' = Some tc' \<longrightarrow> mTypes tc' k' = Some p \<longrightarrow>
      (\<exists>n t. p = Addr n \<and> types ?w n = Some (CacheAllocator c', t))"
  proof (intro allI impI)
    fix c' tc' k' p
    assume "caches ?w c' = Some tc'" and p: "mTypes tc' k' = Some p"
    from only [OF this(1)] have c': "c' = c" and tc': "tc' = ?tc" by simp_all
    show "\<exists>n t. p = Addr n \<and> types ?w n = Some (CacheAllocator c', t)"
    proof (cases "k' = k")
      case True
      with p tc' have "p = Addr ?a" by simp
      then show ?thesis by (simp add: f(3) g(5) c')
    next
      case False
      with p tc' have "mTypes tc k' = Some p" by simp
      from old [OF this] show ?thesis by (auto simp: f(3) c')
    qed
  qed
  have 5: "\<forall>c' tc' k1 k2 p. caches ?w c' = Some tc' \<longrightarrow> mTypes tc' k1 = Some p \<longrightarrow>
      mTypes tc' k2 = Some p \<longrightarrow> k1 = k2"
  proof (intro allI impI)
    fix c' tc' k1 k2 p
    assume "caches ?w c' = Some tc'" and p1: "mTypes tc' k1 = Some p" and p2: "mTypes tc' k2 = Some p"
    from only [OF this(1)] have tc': "tc' = ?tc" by simp
    have new: "k' = k" if "mTypes tc' k' = Some (Addr ?a)" for k'
    proof (rule ccontr)
      assume "k' \<noteq> k"
      with that tc' have "mTypes tc k' = Some (Addr ?a)" by simp
      from old [OF this] show False by simp
    qed
    show "k1 = k2"
    proof (cases "p = Addr ?a")
      case True
      with p1 p2 have "k1 = k" "k2 = k" by (auto intro: new)
      then show ?thesis by simp
    next
      case False
      with p1 p2 tc' have "mTypes tc k1 = Some p" "mTypes tc k2 = Some p"
        by (auto split: if_splits)
      then show ?thesis by (rule cache_inv_injD [OF inv tc])
    qed
  qed
  from 1 2 3 4 5 show ?thesis
    unfolding cache_inv_def by blast
qed

lemma cache_inv_getType:
  assumes "cache_inv w" shows "cache_inv (snd (getType b bt pr qu ps ss w))"
proof (cases rule: getType_cases [of b bt pr qu ps ss w])
  case same
  with assms show ?thesis by simp
next
  case orphan
  with assms show ?thesis by (simp add: cache_inv_constructed)
next
  case miss
  with assms show ?thesis by (simp add: cache_inv_miss)
qed

lemma cache_inv_step: "cache_inv w \<Longrightarrow> cache_inv (step b x w)"
  by (cases x) (simp_all add: cache_inv_initialize cache_inv_destroy cache_inv_getType cache_inv_caller)

lemma cache_inv_run: "cache_inv w \<Longrightarrow> cache_inv (run b xs w)"
  by (induction xs arbitrary: w) (simp_all add: cache_inv_step)

lemma cache_inv_reachable: "cache_inv (run b xs startup)"
  by (simp add: cache_inv_run cache_inv_startup)

subsection \<open>Interning\<close>

lemma live_mTypes_SomeD:
  "live_mTypes w k = Some p \<Longrightarrow>
     \<exists>c tc. sCache w = Addr c \<and> caches w c = Some tc \<and> mTypes tc k = Some p"
  by (auto simp: live_mTypes_def split: ptr.splits option.splits)

lemma live_mTypes_eq:
  "sCache w = Addr c \<Longrightarrow> caches w c = Some tc \<Longrightarrow> live_mTypes w = mTypes tc"
  by (simp add: live_mTypes_def)

lemma live_mTypes_miss:
  "sCache w = Addr c \<Longrightarrow>
     live_mTypes (miss_world c tc k bt pr qu ps ss w) =
       (mTypes tc)(k \<mapsto> Addr (first_free (types w) (next_type w)))"
  by (simp add: live_mTypes_def miss_world_fields)

lemma live_mTypes_constructed:
  "live_mTypes (constructed_world c bt pr qu ps ss w) = live_mTypes w"
  by (simp add: live_mTypes_def constructed_world_fields split: ptr.splits)

lemma getType_Inr_live:
  assumes "fst (getType b bt pr qu ps ss w) = Inr p"
  obtains key where "TypeKey_ctor b (auto_storage w) bt pr qu ps ss = Inr key"
    "live_mTypes (snd (getType b bt pr qu ps ss w)) =
       (live_mTypes w)(TypeKey_value (byte_order b) key \<mapsto> p)"
  using assms
proof (cases rule: getType_Inr_cases)
  case (hit key c tc)
  then have "live_mTypes w (TypeKey_value (byte_order b) key) = Some p"
    by (simp add: live_mTypes_eq)
  then have "(live_mTypes w)(TypeKey_value (byte_order b) key \<mapsto> p) = live_mTypes w"
    by (rule map_upd_triv)
  with hit show ?thesis by (intro that [of key]) simp_all
next
  case (miss key c tc)
  then show ?thesis by (intro that [of key]) (simp_all add: live_mTypes_miss live_mTypes_eq)
qed

lemma getType_live_hit:
  assumes key: "TypeKey_ctor b this bt pr qu ps ss = Inr key"
      and live: "live_mTypes w (TypeKey_value (byte_order b) key) = Some p"
  shows "getType b bt pr qu ps ss w = (Inr p, w)"
proof -
  from live_mTypes_SomeD [OF live] obtain c tc where
    c: "sCache w = Addr c" "caches w c = Some tc"
       "mTypes tc (TypeKey_value (byte_order b) key) = Some p" by blast
  from key have "TypeKey_ctor b (auto_storage w) bt pr qu ps ss = Inr key"
    by (rule TypeKey_ctor_any_storage)
  from getType_hit [OF this c] show ?thesis .
qed

lemma live_mTypes_initialize: "live_mTypes w \<subseteq>\<^sub>m live_mTypes (snd (initialize w))"
proof (cases "sCache w = nullptr")
  case True
  then show ?thesis by (simp add: live_mTypes_def)
next
  case False
  then show ?thesis by (simp add: initialize_same)
qed

lemma live_mTypes_caller: "live_mTypes (caller_step a m j w) = live_mTypes w"
  by (simp add: live_mTypes_def caller_step_def split: ptr.splits)

lemma live_mTypes_getType: "live_mTypes w \<subseteq>\<^sub>m live_mTypes (snd (getType b bt pr qu ps ss w))"
proof (cases rule: getType_cases [of b bt pr qu ps ss w])
  case same
  then show ?thesis by simp
next
  case orphan
  then show ?thesis by (simp add: live_mTypes_constructed)
next
  case (miss key c tc)
  then show ?thesis
    by (auto simp: live_mTypes_miss live_mTypes_eq [of w c tc] map_le_def)
qed

lemma live_mTypes_step: "x \<noteq> Destroy \<Longrightarrow> live_mTypes w \<subseteq>\<^sub>m live_mTypes (step b x w)"
  by (cases x) (simp_all add: live_mTypes_initialize live_mTypes_caller live_mTypes_getType)

lemma live_mTypes_run: "Destroy \<notin> set xs \<Longrightarrow> live_mTypes w \<subseteq>\<^sub>m live_mTypes (run b xs w)"
proof (induction xs arbitrary: w)
  case Nil
  then show ?case by simp
next
  case (Cons x xs)
  from Cons.prems have "x \<noteq> Destroy" and "Destroy \<notin> set xs" by auto
  then have "live_mTypes w \<subseteq>\<^sub>m live_mTypes (step b x w)"
    and "live_mTypes (step b x w) \<subseteq>\<^sub>m live_mTypes (run b xs (step b x w))"
    by (simp_all add: live_mTypes_step Cons.IH)
  then show ?case by (auto intro: map_le_trans)
qed

text \<open>
  C1: when \<^verbatim>\<open>getType\<close> has returned \<open>p\<close> for a tuple, the mapping of the live cache is
  the one before the call with \<open>p\<close> entered under the value of the key of the tuple,
  and a call that found the key present has changed nothing. After any further
  operations other than \<^verbatim>\<open>destroy\<close> the mapping still holds \<open>p\<close> under that key, a call
  with the same attributes is a hit that returns \<open>p\<close> and leaves the state as it is,
  and every entry of the mapping has stayed, under its key and with its pointer.
\<close>

theorem getType_interning:
  assumes first: "fst (getType b bt pr qu ps ss w) = Inr p"
      and nodestroy: "Destroy \<notin> set ops"
  shows "\<exists>key. TypeKey_ctor b (auto_storage w) bt pr qu ps ss = Inr key \<and>
      live_mTypes (snd (getType b bt pr qu ps ss w)) =
        (live_mTypes w)(TypeKey_value (byte_order b) key \<mapsto> p) \<and>
      (live_mTypes w (TypeKey_value (byte_order b) key) \<noteq> None \<longrightarrow>
         getType b bt pr qu ps ss w = (Inr p, w)) \<and>
      live_mTypes (run b ops (snd (getType b bt pr qu ps ss w)))
        (TypeKey_value (byte_order b) key) = Some p \<and>
      getType b bt pr qu ps ss (run b ops (snd (getType b bt pr qu ps ss w)))
        = (Inr p, run b ops (snd (getType b bt pr qu ps ss w))) \<and>
      live_mTypes (snd (getType b bt pr qu ps ss w))
        \<subseteq>\<^sub>m live_mTypes (run b ops (snd (getType b bt pr qu ps ss w)))"
proof -
  let ?w1 = "snd (getType b bt pr qu ps ss w)"
  from first obtain key where key: "TypeKey_ctor b (auto_storage w) bt pr qu ps ss = Inr key"
    and live: "live_mTypes ?w1 = (live_mTypes w)(TypeKey_value (byte_order b) key \<mapsto> p)"
    by (rule getType_Inr_live)
  let ?v = "TypeKey_value (byte_order b) key"
  have hit: "getType b bt pr qu ps ss w = (Inr p, w)" if "live_mTypes w ?v \<noteq> None"
  proof -
    from that obtain p' where p': "live_mTypes w ?v = Some p'" by blast
    from getType_live_hit [OF key this] first show ?thesis by simp
  qed
  have le: "live_mTypes ?w1 \<subseteq>\<^sub>m live_mTypes (run b ops ?w1)"
    using nodestroy by (rule live_mTypes_run)
  from live have "live_mTypes ?w1 ?v = Some p" by simp
  with le have stay: "live_mTypes (run b ops ?w1) ?v = Some p"
    by (metis domI map_le_def)
  from getType_live_hit [OF key stay] key live hit stay le show ?thesis by blast
qed

subsection \<open>The concrete states\<close>

lemma example_world_eq:
  "example_world =
     \<lparr>sCache = Addr 0, caches = [0 \<mapsto> \<lparr>mTypes = Map.empty\<rparr>], types = Map.empty,
      globalPoolAllocator = NullAllocator, next_cache = 1, next_type = 0,
      free_mem = Unlimited, auto_storage = []\<rparr>"
  by (simp add: example_world_def startup_def caller_step_def initialize_def new_TCache_def)

lemma starved_world_eq:
  "starved_world =
     \<lparr>sCache = Addr 0, caches = [0 \<mapsto> \<lparr>mTypes = Map.empty\<rparr>], types = Map.empty,
      globalPoolAllocator = CallerAllocator 7, next_cache = 1, next_type = 0,
      free_mem = Left 0, auto_storage = []\<rparr>"
  by (simp add: starved_world_def startup_def caller_step_def initialize_def new_TCache_def)

lemma tight_world_eq:
  "tight_world =
     \<lparr>sCache = Addr 0, caches = [0 \<mapsto> \<lparr>mTypes = Map.empty\<rparr>], types = Map.empty,
      globalPoolAllocator = CallerAllocator 7, next_cache = 1, next_type = 0,
      free_mem = Left 1, auto_storage = []\<rparr>"
  by (simp add: tight_world_def startup_def caller_step_def initialize_def new_TCache_def)

lemma example_key:
  "TypeKey_ctor example_build this bt pr qu ps ss =
     Inr [to_EnumComponentType bt, to_EnumComponentType pr, to_EnumComponentType qu, ps, ss, 0, 0, 0]"
  by (simp add: TypeKey_ctor_passes example_build_assertion)

lemma example_key_12341:
  "TypeKey_ctor example_build this 1 2 3 4 1 = Inr [1, 2, 3, 4, 1, 0, 0, 0]"
  by (simp add: example_key to_EnumComponentType_def)

lemma example_key_22341:
  "TypeKey_ctor example_build this 2 2 3 4 1 = Inr [2, 2, 3, 4, 1, 0, 0, 0]"
  by (simp add: example_key to_EnumComponentType_def)

lemma example_first:
  "getType example_build 1 2 3 4 1 example_world =
     (Inr (Addr 0),
      miss_world 0 \<lparr>mTypes = Map.empty\<rparr> (TypeKey_value LittleEndian [1, 2, 3, 4, 1, 0, 0, 0])
        1 2 3 4 1 example_world)"
  using getType_miss [OF example_key_12341, of example_world 0 "\<lparr>mTypes = Map.empty\<rparr>"]
  by (simp add: example_world_eq example_build_def)

lemma example_first_live:
  "live_mTypes (snd (getType example_build 1 2 3 4 1 example_world)) =
     [TypeKey_value LittleEndian [1, 2, 3, 4, 1, 0, 0, 0] \<mapsto> Addr 0]"
  by (simp only: example_first snd_conv) (simp add: live_mTypes_miss example_world_eq)

theorem getType_interning_witness:
  "fst (getType example_build 1 2 3 4 1 example_world) = Inr (Addr 0) \<and>
   Destroy \<notin> set [Initialize, GetType 2 2 3 4 1] \<and>
   TypeKey_ctor example_build (auto_storage example_world) 1 2 3 4 1
     = Inr [1, 2, 3, 4, 1, 0, 0, 0] \<and>
   live_mTypes example_world = Map.empty \<and>
   live_mTypes (snd (getType example_build 1 2 3 4 1 example_world))
     = [TypeKey_value LittleEndian [1, 2, 3, 4, 1, 0, 0, 0] \<mapsto> Addr 0] \<and>
   live_mTypes (run example_build [Initialize, GetType 2 2 3 4 1]
                  (snd (getType example_build 1 2 3 4 1 example_world)))
     (TypeKey_value LittleEndian [1, 2, 3, 4, 1, 0, 0, 0]) = Some (Addr 0) \<and>
   getType example_build 1 2 3 4 1
     (run example_build [Initialize, GetType 2 2 3 4 1]
        (snd (getType example_build 1 2 3 4 1 example_world)))
     = (Inr (Addr 0),
        run example_build [Initialize, GetType 2 2 3 4 1]
          (snd (getType example_build 1 2 3 4 1 example_world))) \<and>
   live_mTypes (snd (getType example_build 1 2 3 4 1 example_world))
     (TypeKey_value LittleEndian [1, 2, 3, 4, 1, 0, 0, 0]) \<noteq> None \<and>
   getType example_build 1 2 3 4 1 (snd (getType example_build 1 2 3 4 1 example_world))
     = (Inr (Addr 0), snd (getType example_build 1 2 3 4 1 example_world))"
proof -
  let ?ops = "[Initialize, GetType 2 2 3 4 1]"
  let ?w1 = "snd (getType example_build 1 2 3 4 1 example_world)"
  let ?k = "[1, 2, 3, 4, 1, 0, 0, 0] :: TypeKey"
  have h: "fst (getType example_build 1 2 3 4 1 example_world) = Inr (Addr 0)"
    by (simp add: example_first)
  have d: "Destroy \<notin> set ?ops" by simp
  have k: "TypeKey_ctor example_build this 1 2 3 4 1 = Inr ?k" for this
    by (rule example_key_12341)
  have e: "live_mTypes example_world = Map.empty"
    by (simp add: live_mTypes_def example_world_eq)
  have bo: "byte_order example_build = LittleEndian" by (simp add: example_build_def)
  from getType_interning [OF h d] obtain key where
    "TypeKey_ctor example_build (auto_storage example_world) 1 2 3 4 1 = Inr key"
    and r: "live_mTypes ?w1 = (live_mTypes example_world)(TypeKey_value (byte_order example_build) key \<mapsto> Addr 0)"
      "live_mTypes (run example_build ?ops ?w1) (TypeKey_value (byte_order example_build) key) = Some (Addr 0)"
      "getType example_build 1 2 3 4 1 (run example_build ?ops ?w1)
         = (Inr (Addr 0), run example_build ?ops ?w1)"
    by blast
  with k have key: "key = ?k" by simp
  have l1: "live_mTypes ?w1 = [TypeKey_value LittleEndian ?k \<mapsto> Addr 0]"
    using r(1) by (simp add: key bo e)
  then have l2: "live_mTypes ?w1 (TypeKey_value LittleEndian ?k) \<noteq> None" by simp
  have h2: "fst (getType example_build 1 2 3 4 1 ?w1) = Inr (Addr 0)"
    using getType_live_hit [OF k, of ?w1 "Addr 0"] l1 by (simp add: bo)
  from getType_interning [OF h2 d] obtain key' where
    "TypeKey_ctor example_build (auto_storage ?w1) 1 2 3 4 1 = Inr key'"
    and "live_mTypes ?w1 (TypeKey_value (byte_order example_build) key') \<noteq> None \<longrightarrow>
         getType example_build 1 2 3 4 1 ?w1 = (Inr (Addr 0), ?w1)"
    by blast
  with k l2 have s: "getType example_build 1 2 3 4 1 ?w1 = (Inr (Addr 0), ?w1)"
    by (simp add: bo)
  from h d k e l1 l2 s r(2,3) show ?thesis
    by (simp only: key bo) simp
qed

subsection \<open>Distinct tuples\<close>

lemma cache_inv_ptrD:
  assumes inv: "cache_inv w" and live: "live_mTypes w k = Some p"
  obtains n c t where "p = Addr n" "sCache w = Addr c" "types w n = Some (CacheAllocator c, t)"
proof -
  from live_mTypes_SomeD [OF live] obtain c tc where
    c: "sCache w = Addr c" "caches w c = Some tc" "mTypes tc k = Some p" by blast
  from cache_inv_storedD [OF inv c(2,3)] obtain n t where
    n: "p = Addr n" "types w n = Some (CacheAllocator c, t)" by blast
  with c(1) show thesis by (auto intro: that)
qed

text \<open>
  C2: two attribute tuples whose enumerated fields lie in the range of the one-byte
  component and that differ in at least one field have keys with different values (in
  either byte order); and when \<^verbatim>\<open>getType\<close> is called for the one and then for the
  other, in any state the program reaches, the two calls return different objects.
\<close>

theorem TypeKey_unique:
  assumes r1: "in_component_range bt1" "in_component_range pr1" "in_component_range qu1"
      and r2: "in_component_range bt2" "in_component_range pr2" "in_component_range qu2"
      and diff: "(bt1, pr1, qu1, ps1, ss1) \<noteq> (bt2, pr2, qu2, ps2, ss2)"
      and k1: "TypeKey_ctor b this1 bt1 pr1 qu1 ps1 ss1 = Inr k1"
      and k2: "TypeKey_ctor b this2 bt2 pr2 qu2 ps2 ss2 = Inr k2"
  shows "TypeKey_value e k1 \<noteq> TypeKey_value e k2 \<and>
    (\<forall>ops p1 p2.
       fst (getType b bt1 pr1 qu1 ps1 ss1 (run b ops startup)) = Inr p1 \<and>
       fst (getType b bt2 pr2 qu2 ps2 ss2
             (snd (getType b bt1 pr1 qu1 ps1 ss1 (run b ops startup)))) = Inr p2
       \<longrightarrow> p1 \<noteq> p2)"
proof (intro conjI allI impI)
  have neq: "TypeKey_value e' k1 \<noteq> TypeKey_value e' k2" for e'
    using TypeKey_ctor_inj [OF r1 r2 k1 k2] diff by blast
  show "TypeKey_value e k1 \<noteq> TypeKey_value e k2" by (rule neq)
  fix ops p1 p2
  let ?w = "run b ops startup"
  let ?w1 = "snd (getType b bt1 pr1 qu1 ps1 ss1 ?w)"
  let ?v1 = "TypeKey_value (byte_order b) k1" and ?v2 = "TypeKey_value (byte_order b) k2"
  assume "fst (getType b bt1 pr1 qu1 ps1 ss1 ?w) = Inr p1 \<and>
       fst (getType b bt2 pr2 qu2 ps2 ss2 ?w1) = Inr p2"
  then have g1: "fst (getType b bt1 pr1 qu1 ps1 ss1 ?w) = Inr p1"
    and g2: "fst (getType b bt2 pr2 qu2 ps2 ss2 ?w1) = Inr p2" by simp_all
  have inv1: "cache_inv ?w1"
    by (intro cache_inv_getType cache_inv_reachable)
  from g1 obtain key where "TypeKey_ctor b (auto_storage ?w) bt1 pr1 qu1 ps1 ss1 = Inr key"
    and "live_mTypes ?w1 = (live_mTypes ?w)(TypeKey_value (byte_order b) key \<mapsto> p1)"
    by (rule getType_Inr_live)
  with k1 have live1: "live_mTypes ?w1 ?v1 = Some p1"
    by (simp add: TypeKey_ctor_storage [of b this1 _ _ _ _ _ "auto_storage ?w"])
  from inv1 live1 obtain n x where n: "p1 = Addr n" "types ?w1 n = Some x"
    by (rule cache_inv_ptrD)
  from g2 show "p1 \<noteq> p2"
  proof (cases rule: getType_Inr_cases)
    case (hit key c tc)
    from hit(1) k2 have key: "key = k2"
      by (simp add: TypeKey_ctor_storage [of b this2 _ _ _ _ _ "auto_storage ?w1"])
    from live1 hit have "mTypes tc ?v1 = Some p1"
      by (simp add: live_mTypes_eq)
    moreover from hit key have "mTypes tc ?v2 = Some p2" by simp
    ultimately show ?thesis
      using cache_inv_injD [OF inv1 hit(3), of ?v1 p1 ?v2] neq by auto
  next
    case (miss key c tc)
    from cache_inv_fresh [OF inv1] n miss(7) show ?thesis by auto
  qed
qed

theorem TypeKey_unique_witness:
  "in_component_range 1 \<and> in_component_range 2 \<and> in_component_range 3 \<and>
   ((1, 2, 3, 4, 1) :: int \<times> int \<times> int \<times> byte \<times> byte) \<noteq> (2, 2, 3, 4, 1) \<and>
   TypeKey_ctor example_build [] 1 2 3 4 1 = Inr [1, 2, 3, 4, 1, 0, 0, 0] \<and>
   TypeKey_ctor example_build [] 2 2 3 4 1 = Inr [2, 2, 3, 4, 1, 0, 0, 0] \<and>
   TypeKey_value LittleEndian [1, 2, 3, 4, 1, 0, 0, 0]
     \<noteq> TypeKey_value LittleEndian [2, 2, 3, 4, 1, 0, 0, 0] \<and>
   fst (getType example_build 1 2 3 4 1
         (run example_build [Caller None Unlimited [], Initialize] startup))
     = Inr (Addr 0) \<and>
   fst (getType example_build 2 2 3 4 1
         (snd (getType example_build 1 2 3 4 1
                 (run example_build [Caller None Unlimited [], Initialize] startup))))
     = Inr (Addr 1) \<and>
   Addr 0 \<noteq> Addr 1"
proof -
  let ?w = "run example_build [Caller None Unlimited [], Initialize] startup"
  let ?k1 = "[1, 2, 3, 4, 1, 0, 0, 0] :: TypeKey" and ?k2 = "[2, 2, 3, 4, 1, 0, 0, 0] :: TypeKey"
  have w: "?w = example_world" by (simp add: example_world_def)
  have r: "in_component_range 1" "in_component_range 2" "in_component_range 3"
    by (simp_all add: in_component_range_def MaxEnumValue_255)
  have d: "((1, 2, 3, 4, 1) :: int \<times> int \<times> int \<times> byte \<times> byte) \<noteq> (2, 2, 3, 4, 1)" by simp
  note k1 = example_key_12341 and k2 = example_key_22341
  note u = TypeKey_unique [OF r(1,2,3) r(2,2,3) d k1 [of "[]"] k2 [of "[]"]]
  from u have neq: "TypeKey_value e ?k1 \<noteq> TypeKey_value e ?k2" for e by blast
  let ?w1 = "miss_world 0 \<lparr>mTypes = Map.empty\<rparr> (TypeKey_value LittleEndian ?k1) 1 2 3 4 1 example_world"
  have g2: "fst (getType example_build 2 2 3 4 1 ?w1) = Inr (Addr 1)"
    using getType_miss [OF k2, of ?w1 0
        "\<lparr>mTypes = [TypeKey_value LittleEndian ?k1 \<mapsto> Addr 0]\<rparr>"] neq [of LittleEndian]
    by (simp add: example_world_eq example_build_def miss_world_def constructed_world_def
        first_free_def)
  show ?thesis
    unfolding w using r d k1 k2 neq example_first g2 by simp
qed

subsection \<open>The scoped redirect of the ambient allocator\<close>

lemma getType_global:
  "GetGlobalPoolAllocator (snd (getType b bt pr qu ps ss w)) = GetGlobalPoolAllocator w"
  by (cases rule: getType_cases [of b bt pr qu ps ss w])
     (simp_all add: miss_world_fields constructed_world_fields GetGlobalPoolAllocator_def)

lemma constructed_world_types:
  "types (constructed_world c bt pr qu ps ss w) n = types w n \<or>
   (\<exists>t. types (constructed_world c bt pr qu ps ss w) n = Some (CacheAllocator c, t) \<and>
        tt_realized t = Some (CacheAllocator c))"
  by (cases "n = first_free (types w) (next_type w)") (simp_all add: constructed_world_fields)

text \<open>
  C3: on the miss path of \<^verbatim>\<open>getType\<close>, on every way out, the ambient allocator is
  again what it was at entry, and every descriptor that the call has created was
  allocated and realized while the arena of the cache was the ambient allocator. A call
  that returns has the descriptor in that arena and entered under the key. A call that
  fails does so for lack of memory, for the descriptor or for the node of the map, and
  leaves the instances and their mappings as they were.
\<close>

theorem getType_scoped_redirect:
  assumes key: "TypeKey_ctor b (auto_storage w) bt pr qu ps ss = Inr key"
      and c: "sCache w = Addr c" and tc: "caches w c = Some tc"
      and miss: "mTypes tc (TypeKey_value (byte_order b) key) = None"
  shows "GetGlobalPoolAllocator (snd (getType b bt pr qu ps ss w)) = GetGlobalPoolAllocator w \<and>
    sCache (snd (getType b bt pr qu ps ss w)) = sCache w \<and>
    (\<forall>n. types (snd (getType b bt pr qu ps ss w)) n = types w n \<or>
         (\<exists>t. types (snd (getType b bt pr qu ps ss w)) n = Some (CacheAllocator c, t) \<and>
              tt_realized t = Some (CacheAllocator c))) \<and>
    (case fst (getType b bt pr qu ps ss w) of
       Inr p \<Rightarrow>
         allocated_from (snd (getType b bt pr qu ps ss w)) p = Some (CacheAllocator c) \<and>
         realized_under (snd (getType b bt pr qu ps ss w)) p = Some (CacheAllocator c) \<and>
         live_mTypes (snd (getType b bt pr qu ps ss w)) (TypeKey_value (byte_order b) key) = Some p
     | Inl e \<Rightarrow> e = BadAlloc \<and> caches (snd (getType b bt pr qu ps ss w)) = caches w)"
proof -
  let ?a = "first_free (types w) (next_type w)"
  let ?v = "TypeKey_value (byte_order b) key"
  note g = getType_miss [OF key c tc miss]
  consider (none) "exhausted (free_mem w)"
    | (node) "\<not> exhausted (free_mem w)" "exhausted (take_one (free_mem w))"
    | (ok) "\<not> exhausted (free_mem w)" "\<not> exhausted (take_one (free_mem w))" by blast
  then show ?thesis
  proof cases
    case none
    with g have "getType b bt pr qu ps ss w = (Inl BadAlloc, w)" by simp
    then show ?thesis by simp
  next
    case node
    with g have "getType b bt pr qu ps ss w = (Inl BadAlloc, constructed_world c bt pr qu ps ss w)"
      by simp
    then show ?thesis
      using constructed_world_types [of c bt pr qu ps ss w]
      by (simp add: constructed_world_fields GetGlobalPoolAllocator_def)
  next
    case ok
    with g have r: "getType b bt pr qu ps ss w =
        (Inr (Addr ?a), miss_world c tc ?v bt pr qu ps ss w)" by simp
    have "allocated_from (miss_world c tc ?v bt pr qu ps ss w) (Addr ?a) = Some (CacheAllocator c)"
      "realized_under (miss_world c tc ?v bt pr qu ps ss w) (Addr ?a) = Some (CacheAllocator c)"
      by (simp_all add: allocated_from_def realized_under_def miss_world_fields
          constructed_world_fields)
    moreover have "live_mTypes (miss_world c tc ?v bt pr qu ps ss w) ?v = Some (Addr ?a)"
      using c by (simp add: live_mTypes_miss)
    ultimately show ?thesis
      using constructed_world_types [of c bt pr qu ps ss w]
      by (simp add: r miss_world_fields GetGlobalPoolAllocator_def)
  qed
qed

theorem getType_scoped_redirect_witness:
  "fst (getType example_build 1 2 3 4 1 example_world) = Inr (Addr 0) \<and>
   GetGlobalPoolAllocator (snd (getType example_build 1 2 3 4 1 example_world))
     = GetGlobalPoolAllocator example_world \<and>
   allocated_from (snd (getType example_build 1 2 3 4 1 example_world)) (Addr 0)
     = Some (CacheAllocator 0) \<and>
   realized_under (snd (getType example_build 1 2 3 4 1 example_world)) (Addr 0)
     = Some (CacheAllocator 0) \<and>
   getType example_build 1 2 3 4 1 starved_world = (Inl BadAlloc, starved_world) \<and>
   fst (getType example_build 1 2 3 4 1 tight_world) = Inl BadAlloc \<and>
   GetGlobalPoolAllocator tight_world = CallerAllocator 7 \<and>
   GetGlobalPoolAllocator (snd (getType example_build 1 2 3 4 1 tight_world))
     = CallerAllocator 7 \<and>
   allocated_from (snd (getType example_build 1 2 3 4 1 tight_world)) (Addr 0)
     = Some (CacheAllocator 0) \<and>
   caches (snd (getType example_build 1 2 3 4 1 tight_world)) = caches tight_world"
proof -
  note key = example_key_12341
  let ?tc = "\<lparr>mTypes = Map.empty\<rparr>"
  have a: "sCache example_world = Addr 0" "caches example_world 0 = Some ?tc"
    by (simp_all add: example_world_eq)
  have a1: "sCache starved_world = Addr 0" "caches starved_world 0 = Some ?tc"
    by (simp_all add: starved_world_eq)
  have a2: "sCache tight_world = Addr 0" "caches tight_world 0 = Some ?tc"
    and g2: "GetGlobalPoolAllocator tight_world = CallerAllocator 7"
    by (simp_all add: tight_world_eq GetGlobalPoolAllocator_def)
  have m: "mTypes ?tc (TypeKey_value (byte_order example_build) [1, 2, 3, 4, 1, 0, 0, 0]) = None"
    by simp
  have f1: "getType example_build 1 2 3 4 1 starved_world = (Inl BadAlloc, starved_world)"
    by (simp only: getType_miss [OF key a1 m]) (simp add: starved_world_eq)
  have f2: "getType example_build 1 2 3 4 1 tight_world =
      (Inl BadAlloc, constructed_world 0 1 2 3 4 1 tight_world)"
    by (simp only: getType_miss [OF key a2 m]) (simp add: tight_world_eq)
  have o: "allocated_from (constructed_world 0 1 2 3 4 1 tight_world) (Addr 0) = Some (CacheAllocator 0)"
    by (simp add: allocated_from_def constructed_world_def tight_world_eq)
  note s = getType_scoped_redirect [OF key a m, unfolded example_first]
  note t = getType_scoped_redirect [OF key a2 m, unfolded f2]
  from s t f1 f2 g2 o show ?thesis
    by (simp add: example_first)
qed

subsection \<open>The life cycle of the singleton\<close>

lemma initialize_live: "sCache w \<noteq> nullptr \<Longrightarrow> initialize w = (Inr (), w)"
  by (simp add: initialize_def)

lemma initialize_twice: "initialize (snd (initialize w)) = initialize w"
  by (cases "sCache w = nullptr"; cases "exhausted (free_mem w)")
     (simp_all add: initialize_def new_TCache_def)

text \<open>
  C5: \<^verbatim>\<open>initialize\<close> is idempotent. Called a second time it returns what the first call
  returned and leaves the state of the first call; with an instance present it changes
  nothing, so no second instance is constructed and the first one stays in place; and
  \<^verbatim>\<open>getType\<close> after two calls is \<^verbatim>\<open>getType\<close> after one.
\<close>

theorem initialize_idempotent:
  "initialize (snd (initialize w)) = initialize w \<and>
   (sCache w \<noteq> nullptr \<longrightarrow> initialize w = (Inr (), w)) \<and>
   next_cache (snd (initialize (snd (initialize w)))) = next_cache (snd (initialize w)) \<and>
   caches (snd (initialize (snd (initialize w)))) = caches (snd (initialize w)) \<and>
   getType b bt pr qu ps ss (snd (initialize (snd (initialize w))))
     = getType b bt pr qu ps ss (snd (initialize w))"
  by (simp add: initialize_twice initialize_live)

theorem initialize_idempotent_witness:
  "sCache example_world \<noteq> nullptr \<and> initialize example_world = (Inr (), example_world) \<and>
   initialize (snd (initialize startup)) = initialize startup"
  using initialize_idempotent [of example_world] initialize_idempotent [of startup]
  by (simp add: example_world_eq)

text \<open>
  C7: \<^verbatim>\<open>destroy\<close> with no instance leaves the state as it is; with an instance it
  removes the instance and the descriptors of its arena, and leaves \<^verbatim>\<open>sCache\<close> null.
\<close>

theorem destroy_safe:
  "(case sCache w of
      nullptr \<Rightarrow> destroy w = w
    | Addr c \<Rightarrow>
        sCache (destroy w) = nullptr \<and> caches (destroy w) c = None \<and>
        (\<forall>n. allocated_from (destroy w) (Addr n) \<noteq> Some (CacheAllocator c)))"
  by (cases "sCache w")
     (auto simp: destroy_def SafeDelete_sCache_def delete_TCache_def allocated_from_def
        split: option.splits)

theorem destroy_safe_witness:
  "destroy startup = startup \<and>
   sCache (destroy example_world) = nullptr \<and> caches (destroy example_world) 0 = None"
  using destroy_safe [of startup] destroy_safe [of example_world]
  by (simp add: startup_def example_world_eq)

subsection \<open>Returned pointers\<close>

lemma cached_no_null: "cache_inv w \<Longrightarrow> nullptr \<notin> cached w"
proof
  assume inv: "cache_inv w" and "nullptr \<in> cached w"
  then obtain k where "live_mTypes w k = Some nullptr"
    by (auto simp: cached_def ran_def)
  with inv show False by (auto elim: cache_inv_ptrD)
qed

lemma getType_returns:
  assumes inv: "cache_inv w" and live: "sCache w \<noteq> nullptr"
      and key: "TypeKey_ctor b this bt pr qu ps ss = Inr key"
      and mem: "free_mem w = Unlimited"
  shows "\<exists>n. fst (getType b bt pr qu ps ss w) = Inr (Addr n)"
proof -
  from live obtain c where c: "sCache w = Addr c" by (cases "sCache w") simp_all
  from cache_inv_liveD [OF inv c] obtain tc where tc: "caches w c = Some tc" by blast
  from key have key': "TypeKey_ctor b (auto_storage w) bt pr qu ps ss = Inr key"
    by (rule TypeKey_ctor_any_storage)
  show ?thesis
  proof (cases "mTypes tc (TypeKey_value (byte_order b) key)")
    case None
    from getType_miss [OF key' c tc None] mem show ?thesis by simp
  next
    case (Some p)
    with c tc have "live_mTypes w (TypeKey_value (byte_order b) key) = Some p"
      by (simp add: live_mTypes_eq)
    with inv obtain n where "p = Addr n" by (rule cache_inv_ptrD)
    with getType_hit [OF key' c tc Some] show ?thesis by simp
  qed
qed

text \<open>
  C10: in every state the program reaches in which an instance exists, \<^verbatim>\<open>getType\<close>
  does not return the null pointer, and the mapping holds no null pointer before or
  after the call; when the assertion of the key passes and memory is not limited, the
  call does return, with the address of a descriptor.
\<close>

theorem getType_never_null:
  assumes live: "sCache (run b ops startup) \<noteq> nullptr"
  shows "fst (getType b bt pr qu ps ss (run b ops startup)) \<noteq> Inr nullptr \<and>
    nullptr \<notin> cached (run b ops startup) \<and>
    nullptr \<notin> cached (snd (getType b bt pr qu ps ss (run b ops startup))) \<and>
    ((\<not> asserts_enabled b \<or> TypeKey_assertion b) \<and> free_mem (run b ops startup) = Unlimited \<longrightarrow>
       (\<exists>n. fst (getType b bt pr qu ps ss (run b ops startup)) = Inr (Addr n)))"
proof (intro conjI impI)
  let ?w = "run b ops startup"
  have inv: "cache_inv ?w" by (rule cache_inv_reachable)
  then have inv': "cache_inv (snd (getType b bt pr qu ps ss ?w))" by (rule cache_inv_getType)
  show "nullptr \<notin> cached ?w" using inv by (rule cached_no_null)
  show "nullptr \<notin> cached (snd (getType b bt pr qu ps ss ?w))" using inv' by (rule cached_no_null)
  show "fst (getType b bt pr qu ps ss ?w) \<noteq> Inr nullptr"
  proof
    assume "fst (getType b bt pr qu ps ss ?w) = Inr nullptr"
    then obtain key where "live_mTypes (snd (getType b bt pr qu ps ss ?w)) =
        (live_mTypes ?w)(TypeKey_value (byte_order b) key \<mapsto> nullptr)"
      by (rule getType_Inr_live)
    then have "live_mTypes (snd (getType b bt pr qu ps ss ?w))
        (TypeKey_value (byte_order b) key) = Some nullptr" by simp
    with inv' show False by (auto elim: cache_inv_ptrD)
  qed
  assume "(\<not> asserts_enabled b \<or> TypeKey_assertion b) \<and> free_mem ?w = Unlimited"
  then have "TypeKey_ctor b [] bt pr qu ps ss =
      Inr [to_EnumComponentType bt, to_EnumComponentType pr, to_EnumComponentType qu, ps, ss, 0, 0, 0]"
    and "free_mem ?w = Unlimited"
    by (simp_all add: TypeKey_ctor_passes)
  with inv live show "\<exists>n. fst (getType b bt pr qu ps ss ?w) = Inr (Addr n)"
    by (intro getType_returns)
qed

theorem getType_never_null_witness:
  "sCache (run example_build [Caller None Unlimited [], Initialize] startup) \<noteq> nullptr \<and>
   TypeKey_assertion example_build \<and>
   free_mem (run example_build [Caller None Unlimited [], Initialize] startup) = Unlimited \<and>
   fst (getType example_build 1 2 3 4 1
          (run example_build [Caller None Unlimited [], Initialize] startup))
     = Inr (Addr 0)"
proof -
  have w: "run example_build [Caller None Unlimited [], Initialize] startup = example_world"
    by (simp add: example_world_def)
  have l: "sCache example_world \<noteq> nullptr" and m: "free_mem example_world = Unlimited"
    by (simp_all add: example_world_eq)
  from getType_never_null [of example_build "[Caller None Unlimited [], Initialize]" 1 2 3 4 1]
  have "\<exists>n. fst (getType example_build 1 2 3 4 1 example_world) = Inr (Addr n)"
    unfolding w using l m example_build_assertion by blast
  then show ?thesis
    unfolding w using l m example_build_assertion example_first by simp
qed

subsection \<open>Sessions\<close>












subsection \<open>The assertion of the key constructor\<close>

text \<open>
  The assertion does not depend on the arguments of the constructor: it holds exactly
  when the three last enumerators are at most 255, and a build with assertions stops
  in the constructor exactly when it fails.
\<close>

lemma TypeKey_assertion_iff:
  "TypeKey_assertion b \<longleftrightarrow> EbtLast b \<le> 255 \<and> EbpLast b \<le> 255 \<and> EvqLast b \<le> 255"
  by (simp add: TypeKey_assertion_def MaxEnumValue_255)

lemma TypeKey_ctor_fault_iff:
  "TypeKey_ctor b this bt pr qu ps ss = Inl AssertionFailure \<longleftrightarrow>
     asserts_enabled b \<and> \<not> TypeKey_assertion b"
  by (simp add: TypeKey_ctor_def)

end
